theory Spec2Isabelle
  imports Main "HOL-Library.Multiset"
begin

section \<open>Strings and integers of the Go runtime\<close>

text \<open>
  A Go string is a sequence of bytes; it is modelled as \<open>string\<close> (a list of 8-bit
  characters). Only the library functions that \<open>main.go\<close> calls are modelled, each by
  what it computes on the bytes.
\<close>

definition isDigit :: "char \<Rightarrow> bool" where
  \<comment> \<open>the class \<open>\d\<close> of Go's regexp (RE2: ASCII \<open>0-9\<close> only) and the digit test of
      \<open>strconv\<close> and \<open>time\<close>\<close>
  "isDigit c = (48 \<le> (of_char c :: nat) \<and> (of_char c :: nat) \<le> 57)"

definition digitVal :: "char \<Rightarrow> nat" where
  "digitVal c = (of_char c :: nat) - 48"

definition digitChar :: "nat \<Rightarrow> char" where
  "digitChar d = ''0123456789'' ! d"

definition isSpaceRe :: "char \<Rightarrow> bool" where
  \<comment> \<open>the class \<open>\s\<close> of Go's regexp: tab, newline, form feed, carriage return, space\<close>
  "isSpaceRe c = ((of_char c :: nat) \<in> {9, 10, 12, 13, 32})"

definition isUpper :: "char \<Rightarrow> bool" where
  "isUpper c = (65 \<le> (of_char c :: nat) \<and> (of_char c :: nat) \<le> 90)"

definition toLowerByte :: "char \<Rightarrow> char" where
  \<comment> \<open>\<open>c + ('a' - 'A')\<close> for an upper-case letter: bit 5 is set\<close>
  "toLowerByte c =
     (if isUpper c
      then (case c of Char b0 b1 b2 b3 b4 b5 b6 b7 \<Rightarrow> Char b0 b1 b2 b3 b4 True b6 b7)
      else c)"

definition ToLower :: "string \<Rightarrow> string" where
  \<comment> \<open>\<open>strings.ToLower\<close>: \<open>A-Z\<close> become \<open>a-z\<close>. Bytes outside ASCII are kept as they
      are: Go maps a non-ASCII rune to a rune that is no digit, no white space and none of
      the letters \<open>s a v e\<close>, so what the pattern below matches is the same.\<close>
  "ToLower s = map toLowerByte s"

fun digitsVal :: "nat \<Rightarrow> string \<Rightarrow> nat" where
  \<comment> \<open>the loop \<open>n = n*10 + int(ch - '0')\<close>\<close>
  "digitsVal n [] = n"
| "digitsVal n (c # cs) = digitsVal (n * 10 + digitVal c) cs"

datatype error = ErrSyntax | ErrRange | ParseError | ServiceError

definition intSize :: nat where
  \<comment> \<open>\<open>strconv.IntSize\<close>: the width of Go's \<open>int\<close> on a 64-bit target\<close>
  "intSize = 64"

definition maxInt :: int where
  "maxInt = 2 ^ (intSize - 1) - 1"

definition minInt :: int where
  "minInt = - (2 ^ (intSize - 1))"

definition Atoi :: "string \<Rightarrow> error + int" where
  \<comment> \<open>\<open>strconv.Atoi\<close>: an optional sign, then one or more decimal digits; a value that
      does not fit \<open>int\<close> is a range error\<close>
  "Atoi s =
     (let neg = (s \<noteq> [] \<and> hd s = CHR ''-'');
          ds = (if s \<noteq> [] \<and> (hd s = CHR ''-'' \<or> hd s = CHR ''+'') then tl s else s)
      in if ds = [] \<or> \<not> list_all isDigit ds then Inl ErrSyntax
         else let n = int (digitsVal 0 ds); v = (if neg then - n else n)
              in if v < minInt \<or> maxInt < v then Inl ErrRange else Inr v)"

fun Itoa_nat :: "nat \<Rightarrow> string" where
  \<comment> \<open>the decimal numeral of a natural number, as \<open>strconv.Itoa\<close> writes it\<close>
  "Itoa_nat n = (if n < 10 then [digitChar n] else Itoa_nat (n div 10) @ [digitChar (n mod 10)])"

declare Itoa_nat.simps [simp del]

section \<open>The metric extractor\<close>

text \<open>
  \<open>extractZillowSavesCount\<close> has one active pattern, \<open>(\d+)\s+saves?\<close>.
  \<open>submatch_here\<close> is the match of that pattern anchored at the start of its argument:
  Go's leftmost-first matching takes the greedy run of digits (the digits must be
  followed by white space, so no shorter run can match), the greedy run of white space
  (which must be followed by \<open>s\<close>), the letters \<open>save\<close> and an \<open>s\<close> if there is one.
  The result is the submatch list: the whole match, then group 1.
\<close>

definition submatch_here :: "string \<Rightarrow> string list option" where
  "submatch_here s =
     (let ds = takeWhile isDigit s; r1 = dropWhile isDigit s;
          ws = takeWhile isSpaceRe r1; r2 = dropWhile isSpaceRe r1
      in if ds \<noteq> [] \<and> ws \<noteq> [] \<and> take 4 r2 = ''save''
         then Some [ds @ ws @ ''save'' @ (if take 1 (drop 4 r2) = ''s'' then ''s'' else []), ds]
         else None)"

fun FindStringSubmatch :: "string \<Rightarrow> string list" where
  \<comment> \<open>\<open>re.FindStringSubmatch\<close>: the leftmost match, or nil (the empty list)\<close>
  "FindStringSubmatch [] = []"
| "FindStringSubmatch (c # cs) =
     (case submatch_here (c # cs) of
        Some m \<Rightarrow> m
      | None \<Rightarrow> FindStringSubmatch cs)"

definition extractZillowSavesCount :: "string \<Rightarrow> int \<times> error option" where
  \<comment> \<open>Go's \<open>(int, error)\<close>: the count and the error, \<open>None\<close> for nil\<close>
  "extractZillowSavesCount content =
     (let lowerContent = ToLower content;
          matches = FindStringSubmatch lowerContent
      in if length matches > 1
         then (case Atoi (matches ! 1) of
                 Inr cnt \<Rightarrow> (cnt, None)
               | Inl err \<Rightarrow> (0, None))
         else (0, None))"

section \<open>Times and dates\<close>

text \<open>
  A \<open>time.Time\<close> is an instant together with a location. It is modelled by what the
  clock of that location shows (calendar date and nanoseconds since midnight) and the
  location's offset from UTC in seconds; the instant is computed from both. The e-mail
  library hands over each message's date with the offset the message carries.
\<close>

record Time =
  year :: int
  month :: int
  day :: int
  nsecOfDay :: int
  zoneOffset :: int

definition isLeap :: "int \<Rightarrow> bool" where
  "isLeap y = (y mod 4 = 0 \<and> (y mod 100 \<noteq> 0 \<or> y mod 400 = 0))"

definition daysIn :: "int \<Rightarrow> int \<Rightarrow> int" where
  "daysIn m y =
     (if m = 2 then (if isLeap y then 29 else 28)
      else if m = 4 \<or> m = 6 \<or> m = 9 \<or> m = 11 then 30 else 31)"

definition validTime :: "Time \<Rightarrow> bool" where
  "validTime t =
     (1 \<le> month t \<and> month t \<le> 12 \<and> 1 \<le> day t \<and> day t \<le> daysIn (month t) (year t)
      \<and> 0 \<le> nsecOfDay t \<and> nsecOfDay t < 86400 * 1000000000)"

definition daysBeforeYear :: "int \<Rightarrow> int" where
  \<comment> \<open>days from 1 January of year 0 to 1 January of year \<open>y\<close> (proleptic Gregorian)\<close>
  "daysBeforeYear y = 365 * y + (y + 3) div 4 - (y + 99) div 100 + (y + 399) div 400"

definition daysBefore :: "int \<Rightarrow> int" where
  \<comment> \<open>days of a non-leap year before the first of month \<open>m\<close>\<close>
  "daysBefore m = [0, 31, 59, 90, 120, 151, 181, 212, 243, 273, 304, 334] ! nat (m - 1)"

definition dayNumber :: "Time \<Rightarrow> int" where
  "dayNumber t =
     daysBeforeYear (year t) + daysBefore (month t)
     + (if isLeap (year t) \<and> 2 < month t then 1 else 0) + (day t - 1)"

definition instant :: "Time \<Rightarrow> int" where
  \<comment> \<open>nanoseconds of the instant, counted from 0000-01-01T00:00:00 UTC\<close>
  "instant t = (dayNumber t * 86400 - zoneOffset t) * 1000000000 + nsecOfDay t"

definition Before :: "Time \<Rightarrow> Time \<Rightarrow> bool" where
  \<comment> \<open>\<open>t.Before(u)\<close>: the instant of \<open>t\<close> is earlier; locations play no part\<close>
  "Before t u = (instant t < instant u)"

definition appendInt :: "int \<Rightarrow> nat \<Rightarrow> string" where
  \<comment> \<open>\<open>appendInt\<close> of package time: a sign, then the digits padded with zeros to \<open>width\<close>\<close>
  "appendInt x width =
     (let ds = Itoa_nat (nat \<bar>x\<bar>)
      in (if x < 0 then ''-'' else []) @ replicate (width - length ds) CHR ''0'' @ ds)"

definition Format :: "Time \<Rightarrow> string" where
  \<comment> \<open>\<open>t.Format("2006-01-02")\<close>: the date the clock of \<open>t\<close>'s own location shows\<close>
  "Format t = appendInt (year t) 4 @ ''-'' @ appendInt (month t) 2 @ ''-'' @ appendInt (day t) 2"

definition AddDate :: "Time \<Rightarrow> Time" where
  \<comment> \<open>\<open>t.AddDate(0, 0, 1)\<close>, that is \<open>Date(year, month, day+1, ...)\<close> in \<open>t\<close>'s location:
      a day past the end of the month is normalised to the first of the next month\<close>
  "AddDate t =
     (if day t + 1 \<le> daysIn (month t) (year t) then t\<lparr>day := day t + 1\<rparr>
      else if month t < 12 then t\<lparr>month := month t + 1, day := 1\<rparr>
      else t\<lparr>year := year t + 1, month := 1, day := 1\<rparr>)"

subsection \<open>Parsing a date by a layout\<close>

datatype std = stdLongYear | stdZeroMonth | stdNumMonth | stdMonth | stdZeroDay | stdDay

fun nextStdChunk :: "string \<Rightarrow> string \<times> std option \<times> string" where
  \<comment> \<open>\<open>nextStdChunk\<close> of package time, for the layout elements that occur in the five
      layouts of \<open>doZillow\<close>: the literal prefix, the first element, the rest\<close>
  "nextStdChunk [] = ([], None, [])"
| "nextStdChunk (c # r) =
     (if take 3 (c # r) = ''Jan'' then ([], Some stdMonth, drop 2 r)
      else if take 2 (c # r) = ''01'' then ([], Some stdZeroMonth, drop 1 r)
      else if take 2 (c # r) = ''02'' then ([], Some stdZeroDay, drop 1 r)
      else if c = CHR ''1'' then ([], Some stdNumMonth, r)
      else if take 4 (c # r) = ''2006'' then ([], Some stdLongYear, drop 3 r)
      else if c = CHR ''2'' then ([], Some stdDay, r)
      else (case nextStdChunk r of (prefix, s, suffix) \<Rightarrow> (c # prefix, s, suffix)))"

fun chunksFuel :: "nat \<Rightarrow> string \<Rightarrow> (string \<times> std option) list" where
  "chunksFuel 0 layout = []"
| "chunksFuel (Suc n) layout =
     (case nextStdChunk layout of
        (prefix, None, suffix) \<Rightarrow> [(prefix, None)]
      | (prefix, Some s, suffix) \<Rightarrow> (prefix, Some s) # chunksFuel n suffix)"

definition chunks :: "string \<Rightarrow> (string \<times> std option) list" where
  \<comment> \<open>the layout cut by \<open>nextStdChunk\<close> again and again, as the loop of \<open>time.Parse\<close>
      does; every element takes at least one byte, so the fuel never runs out\<close>
  "chunks layout = chunksFuel (Suc (length layout)) layout"

definition cutspace :: "string \<Rightarrow> string" where
  "cutspace s = dropWhile (\<lambda>c. c = CHR '' '') s"

function skip :: "string \<Rightarrow> string \<Rightarrow> string option" where
  \<comment> \<open>\<open>skip(value, prefix)\<close>: the value without the literal prefix; a space of the
      prefix stands for any run of spaces of the value, also an empty one at its end\<close>
  "skip val [] = Some val"
| "skip val (p # ps) =
     (if p = CHR '' '' then
        (if val \<noteq> [] \<and> hd val \<noteq> CHR '' '' then None
         else skip (cutspace val) (cutspace ps))
      else if val = [] \<or> hd val \<noteq> p then None
      else skip (tl val) ps)"
  by pat_completeness auto
termination
  by (relation "measure (\<lambda>(val, prefix). length prefix)")
     (auto simp: cutspace_def intro: le_imp_less_Suc length_dropWhile_le)

definition getnum :: "string \<Rightarrow> bool \<Rightarrow> (int \<times> string) option" where
  \<comment> \<open>\<open>getnum(s, fixed)\<close>: one or two digits, exactly two when \<open>fixed\<close>\<close>
  "getnum s fixed =
     (case s of
        [] \<Rightarrow> None
      | c0 # r \<Rightarrow>
          if \<not> isDigit c0 then None
          else (case r of
                  [] \<Rightarrow> if fixed then None else Some (int (digitVal c0), r)
                | c1 # r' \<Rightarrow>
                    if \<not> isDigit c1 then (if fixed then None else Some (int (digitVal c0), r))
                    else Some (int (digitVal c0) * 10 + int (digitVal c1), r')))"

definition shortMonthNames :: "string list" where
  "shortMonthNames = [''jan'', ''feb'', ''mar'', ''apr'', ''may'', ''jun'',
                      ''jul'', ''aug'', ''sep'', ''oct'', ''nov'', ''dec'']"

fun lookup :: "string list \<Rightarrow> int \<Rightarrow> string \<Rightarrow> (int \<times> string) option" where
  \<comment> \<open>\<open>lookup(shortMonthNames, val)\<close>: the index of the name that starts \<open>val\<close>,
      letters compared without case; the table is kept in lower case\<close>
  "lookup [] i val = None"
| "lookup (v # tab) i val =
     (if length v \<le> length val \<and> map toLowerByte (take (length v) val) = v
      then Some (i, drop (length v) val)
      else lookup tab (i + 1) val)"

record parseState =
  pYear :: int
  pMonth :: int
  pDay :: int

definition parseStd :: "std \<Rightarrow> string \<Rightarrow> parseState \<Rightarrow> (parseState \<times> string) option" where
  "parseStd s val st =
     (case s of
        stdLongYear \<Rightarrow>
          if length val < 4 \<or> \<not> list_all isDigit (take 4 val) then None
          else Some (st\<lparr>pYear := int (digitsVal 0 (take 4 val))\<rparr>, drop 4 val)
      | stdMonth \<Rightarrow>
          (case lookup shortMonthNames 0 val of
             None \<Rightarrow> None
           | Some (i, rest) \<Rightarrow> Some (st\<lparr>pMonth := i + 1\<rparr>, rest))
      | stdNumMonth \<Rightarrow>
          (case getnum val False of
             None \<Rightarrow> None
           | Some (m, rest) \<Rightarrow> if m \<le> 0 \<or> 12 < m then None else Some (st\<lparr>pMonth := m\<rparr>, rest))
      | stdZeroMonth \<Rightarrow>
          (case getnum val True of
             None \<Rightarrow> None
           | Some (m, rest) \<Rightarrow> if m \<le> 0 \<or> 12 < m then None else Some (st\<lparr>pMonth := m\<rparr>, rest))
      | stdDay \<Rightarrow>
          (case getnum val False of
             None \<Rightarrow> None
           | Some (d, rest) \<Rightarrow> Some (st\<lparr>pDay := d\<rparr>, rest))
      | stdZeroDay \<Rightarrow>
          (case getnum val True of
             None \<Rightarrow> None
           | Some (d, rest) \<Rightarrow> Some (st\<lparr>pDay := d\<rparr>, rest)))"

fun parseChunks :: "(string \<times> std option) list \<Rightarrow> string \<Rightarrow> parseState \<Rightarrow> parseState option" where
  \<comment> \<open>the loop of \<open>time.Parse\<close>: skip the literal prefix, read the element; after the
      last element nothing of the value may be left\<close>
  "parseChunks [] val st = (if val \<noteq> [] then None else Some st)"
| "parseChunks ((prefix, s) # cs) val st =
     (case skip val prefix of
        None \<Rightarrow> None
      | Some val' \<Rightarrow>
          (case s of
             None \<Rightarrow> if val' \<noteq> [] then None else Some st
           | Some e \<Rightarrow>
               (case parseStd e val' st of
                  None \<Rightarrow> None
                | Some (st', val'') \<Rightarrow> parseChunks cs val'' st')))"

definition Parse :: "string \<Rightarrow> string \<Rightarrow> error + Time" where
  \<comment> \<open>\<open>time.Parse(layout, value)\<close>: a missing month or day is 1, the day is checked
      against the month's length, the result is midnight UTC of that date\<close>
  "Parse layout val =
     (case parseChunks (chunks layout) val \<lparr>pYear = 0, pMonth = - 1, pDay = - 1\<rparr> of
        None \<Rightarrow> Inl ParseError
      | Some st \<Rightarrow>
          (let m = (if pMonth st < 0 then 1 else pMonth st);
               d = (if pDay st < 0 then 1 else pDay st)
           in if d < 1 \<or> daysIn m (pYear st) < d then Inl ParseError
              else Inr \<lparr>year = pYear st, month = m, day = d, nsecOfDay = 0, zoneOffset = 0\<rparr>))"

definition monthOK :: "parseState \<Rightarrow> bool" where
  \<comment> \<open>the month of a parse state is unset or a month\<close>
  "monthOK st = (pMonth st = - 1 \<or> (1 \<le> pMonth st \<and> pMonth st \<le> 12))"

section \<open>The table and the watermark\<close>

text \<open>
  A row of the sheet is a list of cells (\<open>[]interface{}\<close>). A cell is nil, a string, or
  the \<open>int\<close> that \<open>appendToSheet\<close> writes as the count.
\<close>

datatype cell = CellNil | CellString string | CellInt int

definition Itoa :: "int \<Rightarrow> string" where
  "Itoa i = (if i < 0 then CHR ''-'' # Itoa_nat (nat (- i)) else Itoa_nat (nat i))"

fun Sprintf_v :: "cell \<Rightarrow> string" where
  \<comment> \<open>\<open>fmt.Sprintf("%v", cell)\<close>\<close>
  "Sprintf_v CellNil = ''<nil>''"
| "Sprintf_v (CellString s) = s"
| "Sprintf_v (CellInt i) = Itoa i"

definition spaceRunes :: "string list" where
  \<comment> \<open>the UTF-8 encodings of the runes for which \<open>unicode.IsSpace\<close> holds\<close>
  "spaceRunes =
     [[CHR 0x09], [CHR 0x0A], [CHR 0x0B], [CHR 0x0C], [CHR 0x0D], [CHR 0x20],
      [CHR 0xC2, CHR 0x85], [CHR 0xC2, CHR 0xA0], [CHR 0xE1, CHR 0x9A, CHR 0x80],
      [CHR 0xE2, CHR 0x80, CHR 0x80], [CHR 0xE2, CHR 0x80, CHR 0x81],
      [CHR 0xE2, CHR 0x80, CHR 0x82], [CHR 0xE2, CHR 0x80, CHR 0x83],
      [CHR 0xE2, CHR 0x80, CHR 0x84], [CHR 0xE2, CHR 0x80, CHR 0x85],
      [CHR 0xE2, CHR 0x80, CHR 0x86], [CHR 0xE2, CHR 0x80, CHR 0x87],
      [CHR 0xE2, CHR 0x80, CHR 0x88], [CHR 0xE2, CHR 0x80, CHR 0x89],
      [CHR 0xE2, CHR 0x80, CHR 0x8A], [CHR 0xE2, CHR 0x80, CHR 0xA8],
      [CHR 0xE2, CHR 0x80, CHR 0xA9], [CHR 0xE2, CHR 0x80, CHR 0xAF],
      [CHR 0xE2, CHR 0x81, CHR 0x9F], [CHR 0xE3, CHR 0x80, CHR 0x80]]"

definition runeWidth :: "string list \<Rightarrow> string \<Rightarrow> nat" where
  \<comment> \<open>the width in bytes of the rune of the table that starts \<open>s\<close>, 0 when none does\<close>
  "runeWidth tab s =
     (case filter (\<lambda>w. take (length w) s = w) tab of [] \<Rightarrow> 0 | w # _ \<Rightarrow> length w)"

function trimFront :: "string list \<Rightarrow> string \<Rightarrow> string" where
  "trimFront tab s =
     (if runeWidth tab s = 0 \<or> s = [] then s else trimFront tab (drop (runeWidth tab s) s))"
  by pat_completeness auto
termination
  by (relation "measure (\<lambda>(tab, s). length s)") auto

declare trimFront.simps [simp del]

definition TrimSpace :: "string \<Rightarrow> string" where
  \<comment> \<open>\<open>strings.TrimSpace\<close>: white space is cut from the front, then from the back (the
      same, on the reversed bytes)\<close>
  "TrimSpace s = rev (trimFront (map rev spaceRunes) (rev (trimFront spaceRunes s)))"

definition fallbackFilterDate :: string where
  "fallbackFilterDate = ''2025-05-21''"

definition formats :: "string list" where
  "formats = [''1/2/2006'', ''01/02/2006'', ''2006/01/02'', ''Jan 2, 2006'']"

definition allLayouts :: "string list" where
  \<comment> \<open>the primary layout and the alternatives, in the order \<open>doZillow\<close> tries them\<close>
  "allLayouts = ''2006-01-02'' # formats"

fun tryFormats :: "string list \<Rightarrow> string \<Rightarrow> string option" where
  \<comment> \<open>the loop over the alternative formats: the first that parses gives the date;
      \<open>None\<close> is \<open>parsed == false\<close>\<close>
  "tryFormats [] dateStr = None"
| "tryFormats (format # fs) dateStr =
     (case Parse format dateStr of
        Inr parsedDate \<Rightarrow> Some (Format (AddDate parsedDate))
      | Inl err \<Rightarrow> tryFormats fs dateStr)"

definition dynamicFilterDate :: "cell list list \<Rightarrow> string" where
  \<comment> \<open>the filter date that \<open>doZillow\<close> computes from the rows of the sheet\<close>
  "dynamicFilterDate rows =
     (if length rows > 0 then
        (let lastRow = rows ! (length rows - 1)
         in if length lastRow > 0 \<and> lastRow ! 0 \<noteq> CellNil then
              (let dateStr = TrimSpace (Sprintf_v (lastRow ! 0))
               in case Parse ''2006-01-02'' dateStr of
                    Inr parsedDate \<Rightarrow> Format (AddDate parsedDate)
                  | Inl err \<Rightarrow>
                      (case tryFormats formats dateStr of
                         Some d \<Rightarrow> d
                       | None \<Rightarrow> fallbackFilterDate))
            else fallbackFilterDate)
      else fallbackFilterDate)"

section \<open>The sheet service, the e-mails and the run\<close>

record EmailMessage =
  Subject :: string
  Date :: Time
  Content :: string
  ID :: string
  ZillowSaves :: int

text \<open>
  The Sheets service is outside the repository. Its state is the rows of the sheet; the
  model also records every batch handed to an append call, and whether the service
  answers calls with an error. A successful append puts the batch after the last row.
\<close>

record SheetsService =
  sheet :: "cell list list"
  appendCalls :: "cell list list list"
  failing :: bool

definition Values_Get :: "SheetsService \<Rightarrow> error + cell list list" where
  "Values_Get srv = (if failing srv then Inl ServiceError else Inr (sheet srv))"

definition Values_Append :: "SheetsService \<Rightarrow> cell list list \<Rightarrow> error option \<times> SheetsService" where
  "Values_Append srv vals =
     (if failing srv then (Some ServiceError, srv\<lparr>appendCalls := appendCalls srv @ [vals]\<rparr>)
      else (None, srv\<lparr>sheet := sheet srv @ vals, appendCalls := appendCalls srv @ [vals]\<rparr>))"

definition getSheetData :: "SheetsService \<Rightarrow> error + cell list list" where
  "getSheetData srv = (case Values_Get srv of Inl err \<Rightarrow> Inl err | Inr vals \<Rightarrow> Inr vals)"

definition appendToSheet :: "SheetsService \<Rightarrow> EmailMessage list \<Rightarrow> error option \<times> SheetsService" where
  "appendToSheet srv emails =
     (let vals = map (\<lambda>email. [CellString (Format (Date email)), CellInt (ZillowSaves email)]) emails
      in if length vals = 0 then (None, srv)
         else (case Values_Append srv vals of
                 (Some err, srv') \<Rightarrow> (Some err, srv')
               | (None, srv') \<Rightarrow> (None, srv')))"

fun extractAll :: "EmailMessage list \<Rightarrow> bool \<times> EmailMessage list" where
  \<comment> \<open>the loop of \<open>processData\<close> over the e-mails: the flag \<open>bOK\<close> and the e-mails with
      their counts; an error ends the loop and leaves the later e-mails as they are\<close>
  "extractAll [] = (True, [])"
| "extractAll (email # rest) =
     (case extractZillowSavesCount (Content email) of
        (cnt, None) \<Rightarrow>
          (case extractAll rest of
             (bOK, rest') \<Rightarrow> (bOK, email\<lparr>ZillowSaves := cnt\<rparr> # rest'))
      | (cnt, Some err) \<Rightarrow> (False, email\<lparr>ZillowSaves := - 1\<rparr> # rest))"

definition processData ::
  "SheetsService \<Rightarrow> cell list list \<Rightarrow> EmailMessage list \<Rightarrow> SheetsService \<times> EmailMessage list" where
  \<comment> \<open>the service and the e-mails after the call; the result of \<open>appendToSheet\<close> is
      dropped, as in the source\<close>
  "processData srv rows emails =
     (case extractAll emails of
        (bOK, emails') \<Rightarrow>
          if bOK then (snd (appendToSheet srv emails'), emails') else (srv, emails'))"

definition sort_Slice :: "('a \<Rightarrow> 'a \<Rightarrow> bool) \<Rightarrow> 'a list \<Rightarrow> 'a list \<Rightarrow> bool" where
  \<comment> \<open>what \<open>sort.Slice(xs, lessFn)\<close> promises of the slice \<open>ys\<close> it leaves: the same
      elements, none before an element that is less. The order of elements neither of
      which is less is not fixed (\<open>sort.Slice\<close> is no stable sort).\<close>
  "sort_Slice lessFn xs ys = (mset ys = mset xs \<and> sorted_wrt (\<lambda>a b. \<not> lessFn b a) ys)"

definition emailSubject :: string where
  "emailSubject = ''Your Daily Listing Report: 9121 Blackhawk Rd''"

datatype outcome = Fatal | Returned SheetsService "EmailMessage list"

text \<open>
  A run of \<open>doZillow\<close>, from the service and the mail fetch (\<open>getYahooEmails\<close>, given the
  subject and the filter date) to its outcome: \<open>log.Fatalf\<close>, or the return with the
  service and the e-mails as the run leaves them.
\<close>

inductive doZillow ::
  "(string \<Rightarrow> string \<Rightarrow> error + EmailMessage list) \<Rightarrow> SheetsService \<Rightarrow> outcome \<Rightarrow> bool"
  for getYahooEmails :: "string \<Rightarrow> string \<Rightarrow> error + EmailMessage list" and srv :: SheetsService
where
  sheet_fatal:
    "getSheetData srv = Inl err \<Longrightarrow> doZillow getYahooEmails srv Fatal"
| mail_fatal:
    "getSheetData srv = Inr rows \<Longrightarrow>
     getYahooEmails emailSubject (dynamicFilterDate rows) = Inl err \<Longrightarrow>
     doZillow getYahooEmails srv Fatal"
| returned:
    "getSheetData srv = Inr rows \<Longrightarrow>
     getYahooEmails emailSubject (dynamicFilterDate rows) = Inr emails \<Longrightarrow>
     sort_Slice (\<lambda>a b. Before (Date a) (Date b)) emails sortedEmails \<Longrightarrow>
     processData srv rows sortedEmails = (srv', emails') \<Longrightarrow>
     doZillow getYahooEmails srv (Returned srv' emails')"

section \<open>The sort as package sort runs it\<close>





























section \<open>Example data\<close>

definition srv0 :: SheetsService where
  "srv0 = \<lparr>sheet = [], appendCalls = [], failing = False\<rparr>"

definition email0 :: EmailMessage where
  "email0 = \<lparr>Subject = emailSubject,
             Date = \<lparr>year = 2025, month = 7, day = 21, nsecOfDay = 0, zoneOffset = 0\<rparr>,
             Content = ''Your listing had no activity'', ID = ''2'', ZillowSaves = 0\<rparr>"

definition email5 :: EmailMessage where
  "email5 = \<lparr>Subject = emailSubject,
             Date = \<lparr>year = 2025, month = 7, day = 20, nsecOfDay = 0, zoneOffset = 0\<rparr>,
             Content = ''Your listing has 5 saves'', ID = ''1'', ZillowSaves = 0\<rparr>"












section \<open>Evaluation rules\<close>

lemma Itoa_nat_lt10: "n < 10 \<Longrightarrow> Itoa_nat n = [digitChar n]"
  by (simp add: Itoa_nat.simps)

lemma Itoa_nat_ge10: "10 \<le> n \<Longrightarrow> Itoa_nat n = Itoa_nat (n div 10) @ [digitChar (n mod 10)]"
  by (subst Itoa_nat.simps) simp

lemmas format_eval = Format_def appendInt_def Itoa_nat_lt10 Itoa_nat_ge10 digitChar_def

section \<open>The extractor never reports an error\<close>

lemmas extract_defs =
  extractZillowSavesCount_def ToLower_def toLowerByte_def isUpper_def submatch_here_def
  isDigit_def isSpaceRe_def Atoi_def digitVal_def maxInt_def minInt_def intSize_def

lemma space_not_digit: "isSpaceRe c \<Longrightarrow> \<not> isDigit c"
  by (auto simp: isSpaceRe_def isDigit_def)

text \<open>
  The anchored match succeeds exactly on the strings that start with a word of
  \<open>\d+\s+save\<close>: digits, white space, the letters \<open>save\<close>. Group 1 is the digits.
\<close>

lemma submatch_here_iff:
  "submatch_here s = Some m \<longleftrightarrow>
     (\<exists>ds ws rest. ds \<noteq> [] \<and> list_all isDigit ds \<and> ws \<noteq> [] \<and> list_all isSpaceRe ws
        \<and> s = ds @ ws @ ''save'' @ rest
        \<and> m = [ds @ ws @ ''save'' @ (if take 1 rest = ''s'' then ''s'' else []), ds])"
proof
  assume a: "submatch_here s = Some m"
  let ?ds = "takeWhile isDigit s" and ?r1 = "dropWhile isDigit s"
  let ?ws = "takeWhile isSpaceRe ?r1" and ?r2 = "dropWhile isSpaceRe ?r1"
  from a have ne: "?ds \<noteq> []" "?ws \<noteq> []" and sv: "take 4 ?r2 = ''save''"
    and m: "m = [?ds @ ?ws @ ''save'' @ (if take 1 (drop 4 ?r2) = ''s'' then ''s'' else []), ?ds]"
    by (auto simp: submatch_here_def Let_def split: if_splits)
  have "?r2 = take 4 ?r2 @ drop 4 ?r2" by simp
  with sv have r2: "?r2 = ''save'' @ drop 4 ?r2" by simp
  have "s = ?ds @ ?r1" by simp
  also have "?r1 = ?ws @ ?r2" by simp
  finally have s: "s = ?ds @ ?ws @ ''save'' @ drop 4 ?r2" using r2 by simp
  have d: "list_all isDigit ?ds" "list_all isSpaceRe ?ws"
    unfolding list_all_iff using set_takeWhileD by fastforce+
  from ne d s m show "\<exists>ds ws rest. ds \<noteq> [] \<and> list_all isDigit ds \<and> ws \<noteq> [] \<and> list_all isSpaceRe ws
        \<and> s = ds @ ws @ ''save'' @ rest
        \<and> m = [ds @ ws @ ''save'' @ (if take 1 rest = ''s'' then ''s'' else []), ds]"
    by blast
next
  assume "\<exists>ds ws rest. ds \<noteq> [] \<and> list_all isDigit ds \<and> ws \<noteq> [] \<and> list_all isSpaceRe ws
        \<and> s = ds @ ws @ ''save'' @ rest
        \<and> m = [ds @ ws @ ''save'' @ (if take 1 rest = ''s'' then ''s'' else []), ds]"
  then obtain ds ws rest where ne: "ds \<noteq> []" "ws \<noteq> []"
    and d: "list_all isDigit ds" "list_all isSpaceRe ws"
    and s: "s = ds @ ws @ ''save'' @ rest"
    and m: "m = [ds @ ws @ ''save'' @ (if take 1 rest = ''s'' then ''s'' else []), ds]"
    by blast
  from ne(2) obtain w ws' where ws: "ws = w # ws'" by (cases ws) auto
  with d(2) have "\<not> isDigit w" using space_not_digit by simp
  with d(1) ws have t1: "takeWhile isDigit s = ds" and d1: "dropWhile isDigit s = ws @ ''save'' @ rest"
    unfolding s by (simp_all add: list_all_iff takeWhile_append2 dropWhile_append2)
  have "\<not> isSpaceRe CHR ''s''" by (simp add: isSpaceRe_def)
  with d(2) have t2: "takeWhile isSpaceRe (ws @ ''save'' @ rest) = ws"
    and d2: "dropWhile isSpaceRe (ws @ ''save'' @ rest) = ''save'' @ rest"
    by (simp_all add: list_all_iff takeWhile_append2 dropWhile_append2)
  show "submatch_here s = Some m"
    unfolding submatch_here_def Let_def t1 d1 t2 d2 m using ne by simp
qed

lemma submatch_here_Some:
  assumes "submatch_here s = Some m"
  shows "\<exists>w. m = [w, takeWhile isDigit s] \<and> takeWhile isDigit s \<noteq> []"
  using assms by (auto simp: submatch_here_def Let_def split: if_splits)

lemma FindStringSubmatch_shape:
  "FindStringSubmatch s = [] \<or>
   (\<exists>w ds. FindStringSubmatch s = [w, ds] \<and> ds \<noteq> [] \<and> list_all isDigit ds)"
proof (induction s)
  case Nil
  then show ?case by simp
next
  case (Cons c cs)
  show ?case
  proof (cases "submatch_here (c # cs)")
    case None
    with Cons show ?thesis by simp
  next
    case (Some m)
    from submatch_here_Some [OF Some] obtain w where
      m: "m = [w, takeWhile isDigit (c # cs)]" and ne: "takeWhile isDigit (c # cs) \<noteq> []"
      by blast
    have "list_all isDigit (takeWhile isDigit (c # cs))"
      unfolding list_all_iff using set_takeWhileD by fastforce
    with Some m ne show ?thesis by simp
  qed
qed

lemma digit_not_sign: "isDigit c \<Longrightarrow> c \<noteq> CHR ''-'' \<and> c \<noteq> CHR ''+''"
  by (auto simp: isDigit_def)

lemma Atoi_digits:
  assumes "ds \<noteq> []" and "list_all isDigit ds"
  shows "Atoi ds =
    (if int (digitsVal 0 ds) \<le> maxInt then Inr (int (digitsVal 0 ds)) else Inl ErrRange)"
proof -
  from assms obtain c cs where ds: "ds = c # cs" by (cases ds) auto
  with assms have "isDigit c" by simp
  then have "c \<noteq> CHR ''-''" "c \<noteq> CHR ''+''" using digit_not_sign by auto
  moreover have "\<not> int (digitsVal 0 ds) < minInt" by (simp add: minInt_def intSize_def)
  ultimately show ?thesis using assms ds by (auto simp: Atoi_def Let_def)
qed

lemma extract_result:
  "\<exists>n. extractZillowSavesCount content = (n, None) \<and> 0 \<le> n"
proof -
  consider (none) "FindStringSubmatch (ToLower content) = []"
    | (some) w ds where "FindStringSubmatch (ToLower content) = [w, ds]"
        "ds \<noteq> []" "list_all isDigit ds"
    using FindStringSubmatch_shape by blast
  then show ?thesis
  proof cases
    case none
    then show ?thesis by (simp add: extractZillowSavesCount_def)
  next
    case some
    then show ?thesis
      by (simp add: extractZillowSavesCount_def Atoi_digits)
  qed
qed

lemma extract_no_match:
  "FindStringSubmatch (ToLower content) = [] \<Longrightarrow> extractZillowSavesCount content = (0, None)"
  by (simp add: extractZillowSavesCount_def)

lemma extractAll_eq:
  "extractAll emails =
     (True, map (\<lambda>email. email\<lparr>ZillowSaves := fst (extractZillowSavesCount (Content email))\<rparr>) emails)"
proof (induction emails)
  case Nil
  then show ?case by simp
next
  case (Cons e es)
  obtain n where "extractZillowSavesCount (Content e) = (n, None)"
    using extract_result by blast
  with Cons show ?case by simp
qed

text \<open>
  C9. \<open>extractZillowSavesCount\<close> is total and its error is nil for every body: the count
  is never negative and is 0 when the pattern has no match. So the loop of
  \<open>processData\<close> never takes the branch that clears \<open>bOK\<close> and stores -1.
\<close>

theorem extract_never_fails:
  "snd (extractZillowSavesCount content) = None
   \<and> 0 \<le> fst (extractZillowSavesCount content)
   \<and> (FindStringSubmatch (ToLower content) = [] \<longrightarrow> fst (extractZillowSavesCount content) = 0)
   \<and> fst (extractAll emails)
   \<and> (\<forall>e \<in> set (snd (extractAll emails)). ZillowSaves e \<noteq> - 1)"
proof -
  obtain n where n: "extractZillowSavesCount content = (n, None)" "0 \<le> n"
    using extract_result by blast
  have "\<And>c. fst (extractZillowSavesCount c) \<noteq> - 1"
  proof -
    fix c
    obtain k where "extractZillowSavesCount c = (k, None)" "0 \<le> k"
      using extract_result by blast
    then show "fst (extractZillowSavesCount c) \<noteq> - 1" by simp
  qed
  then have "\<forall>e \<in> set (snd (extractAll emails)). ZillowSaves e \<noteq> - 1"
    by (simp add: extractAll_eq)
  moreover have "FindStringSubmatch (ToLower content) = [] \<longrightarrow>
      fst (extractZillowSavesCount content) = 0"
    by (simp add: extract_no_match)
  ultimately show ?thesis using n by (simp add: extractAll_eq)
qed

theorem extract_never_fails_witness:
  "FindStringSubmatch (ToLower ''Your listing had no activity'') = []
   \<and> extractZillowSavesCount ''Your listing had no activity'' = (0, None)
   \<and> extractAll [email0] = (True, [email0])"
  using extract_never_fails [of "''Your listing had no activity''" "[email0]"]
  by (simp add: extract_defs email0_def)

text \<open>
  C2. A body without the pattern gives the count 0 with a nil error, the very result of a
  body that says \<open>0 saves\<close>: the caller cannot tell "not found" from a count.
\<close>

theorem extract_no_pattern_is_zero:
  "extractZillowSavesCount ''Your listing had no activity'' = (0, None)
   \<and> extractZillowSavesCount ''Your listing has 0 saves'' = (0, None)"
  by (simp add: extract_defs)

text \<open>
  C1. Two e-mails, the second without the pattern: the second gets the count 0 (not -1),
  \<open>bOK\<close> stays true and both rows go to the sheet.
\<close>

theorem processData_appends_despite_gap:
  "processData srv0 [] [email5, email0] =
     (\<lparr>sheet = [[CellString ''2025-07-20'', CellInt 5], [CellString ''2025-07-21'', CellInt 0]],
       appendCalls = [[[CellString ''2025-07-20'', CellInt 5], [CellString ''2025-07-21'', CellInt 0]]],
       failing = False\<rparr>,
      [email5\<lparr>ZillowSaves := 5\<rparr>, email0\<lparr>ZillowSaves := 0\<rparr>])"
  by (simp add: processData_def appendToSheet_def Values_Append_def srv0_def email5_def
      email0_def extract_defs format_eval)

section \<open>The count of a body that names one\<close>

lemma lt10_cases: "(d::nat) < 10 \<Longrightarrow> d \<in> {0, 1, 2, 3, 4, 5, 6, 7, 8, 9}"
  by auto

lemma digitChar_props:
  assumes "d < 10"
  shows "isDigit (digitChar d) \<and> digitVal (digitChar d) = d"
  using lt10_cases [OF assms] by (auto simp: digitChar_def isDigit_def digitVal_def)

lemma digitsVal_append: "digitsVal a (xs @ ys) = digitsVal (digitsVal a xs) ys"
  by (induction xs arbitrary: a) auto

lemma Itoa_nat_digits:
  "list_all isDigit (Itoa_nat n) \<and> Itoa_nat n \<noteq> [] \<and> digitsVal 0 (Itoa_nat n) = n"
proof (induction n rule: Itoa_nat.induct)
  case (1 n)
  show ?case
  proof (cases "n < 10")
    case True
    then show ?thesis using digitChar_props [of n] by (simp add: Itoa_nat_lt10)
  next
    case False
    then have ge: "10 \<le> n" by simp
    have "n mod 10 < 10" by simp
    from digitChar_props [OF this] "1" [OF False] show ?thesis
      by (simp add: Itoa_nat_ge10 [OF ge] digitsVal_append)
  qed
qed

lemma digit_not_upper: "isDigit c \<Longrightarrow> toLowerByte c = c"
  by (simp add: isDigit_def toLowerByte_def isUpper_def)

lemma ToLower_digits: "list_all isDigit ds \<Longrightarrow> ToLower ds = ds"
  by (induction ds) (auto simp: ToLower_def digit_not_upper)

lemma ToLower_append: "ToLower (xs @ ys) = ToLower xs @ ToLower ys"
  by (simp add: ToLower_def)

lemma FindStringSubmatch_skip:
  "\<forall>i<length xs. submatch_here (drop i (xs @ r)) = None \<Longrightarrow>
   FindStringSubmatch (xs @ r) = FindStringSubmatch r"
proof (induction xs)
  case Nil
  then show ?case by simp
next
  case (Cons x xs)
  from Cons.prems have "submatch_here (drop 0 ((x # xs) @ r)) = None" by blast
  then have here: "submatch_here (x # xs @ r) = None" by simp
  have "\<forall>i<length xs. submatch_here (drop i (xs @ r)) = None"
  proof (intro allI impI)
    fix i assume "i < length xs"
    then have "Suc i < length (x # xs)" by simp
    with Cons.prems have "submatch_here (drop (Suc i) ((x # xs) @ r)) = None" by blast
    then show "submatch_here (drop i (xs @ r)) = None" by simp
  qed
  with Cons.IH here show ?case by simp
qed

lemma submatch_here_saves:
  assumes "ds \<noteq> []" and "list_all isDigit ds"
  shows "submatch_here (ds @ '' saves'' @ post) = Some [ds @ '' saves'', ds]"
proof -
  have all: "\<And>x. x \<in> set ds \<Longrightarrow> isDigit x" using assms(2) by (simp add: list_all_iff)
  have t: "takeWhile isDigit (ds @ '' saves'' @ post) = ds"
    using all by (simp add: takeWhile_append2 isDigit_def)
  have d: "dropWhile isDigit (ds @ '' saves'' @ post) = '' saves'' @ post"
    using all by (simp add: dropWhile_append2 isDigit_def)
  show ?thesis
    unfolding submatch_here_def t d using assms(1)
    by (simp add: isSpaceRe_def)
qed

text \<open>
  C5 (amended). A body that holds the decimal numeral of \<open>N\<close>, a space and the word
  \<open>saves\<close> in any case, with no match of the pattern starting earlier, gives the count
  \<open>N\<close>, provided \<open>N\<close> fits Go's \<open>int\<close>.
\<close>

theorem extract_saves:
  assumes "content = pre @ Itoa_nat N @ CHR '' '' # w @ post"
    and "ToLower w = ''saves''"
    and "\<forall>i<length pre. submatch_here (drop i (ToLower content)) = None"
    and "int N \<le> maxInt"
  shows "extractZillowSavesCount content = (int N, None)"
proof -
  let ?ds = "Itoa_nat N"
  have ds: "list_all isDigit ?ds" "?ds \<noteq> []" "digitsVal 0 ?ds = N"
    using Itoa_nat_digits by auto
  have low: "ToLower content = ToLower pre @ (?ds @ '' saves'' @ ToLower post)"
    using assms(1,2) ds(1)
    by (simp add: ToLower_append ToLower_digits) (simp add: ToLower_def toLowerByte_def isUpper_def)
  have "\<forall>i<length (ToLower pre).
      submatch_here (drop i (ToLower pre @ (?ds @ '' saves'' @ ToLower post))) = None"
    using assms(3) unfolding low by (simp add: ToLower_def)
  then have skip: "FindStringSubmatch (ToLower content) =
      FindStringSubmatch (?ds @ '' saves'' @ ToLower post)"
    unfolding low by (rule FindStringSubmatch_skip)
  obtain c cs where ccs: "?ds = c # cs" using ds(2) by (cases ?ds) auto
  have "FindStringSubmatch (?ds @ '' saves'' @ ToLower post) = [?ds @ '' saves'', ?ds]"
    using submatch_here_saves [OF ds(2) ds(1), of "ToLower post"] unfolding ccs by simp
  with skip have m: "FindStringSubmatch (ToLower content) = [?ds @ '' saves'', ?ds]" by simp
  show ?thesis
    using assms(4) ds by (simp add: extractZillowSavesCount_def m Atoi_digits)
qed

theorem extract_saves_witness:
  "extractZillowSavesCount ''Hi 5 Saves today'' = (5, None)"
proof -
  have a: "''Hi 5 Saves today'' = ''Hi '' @ Itoa_nat 5 @ CHR '' '' # ''Saves'' @ '' today''"
    by (simp add: Itoa_nat_lt10 digitChar_def)
  have b: "ToLower ''Saves'' = ''saves''"
    by (simp add: ToLower_def toLowerByte_def isUpper_def)
  have c: "\<forall>i<length ''Hi ''. submatch_here (drop i (ToLower ''Hi 5 Saves today'')) = None"
    by (simp add: All_less_Suc numeral_3_eq_3 ToLower_def toLowerByte_def isUpper_def
        submatch_here_def isDigit_def isSpaceRe_def)
  have d: "int 5 \<le> maxInt" by (simp add: maxInt_def intSize_def)
  from extract_saves [OF a b c d] show ?thesis by simp
qed

theorem extract_saves_overflow:
  "''9223372036854775808 saves'' = [] @ Itoa_nat 9223372036854775808 @ CHR '' '' # ''saves'' @ []
   \<and> ToLower ''saves'' = ''saves''
   \<and> extractZillowSavesCount ''9223372036854775808 saves'' = (0, None)
   \<and> extractZillowSavesCount ''9223372036854775808 saves'' \<noteq> (int 9223372036854775808, None)"
  by (simp add: Itoa_nat_lt10 Itoa_nat_ge10 digitChar_def extract_defs)

section \<open>The calendar\<close>

lemma ceil_div_step:
  fixes y k :: int
  assumes "0 < k"
  shows "(y + k) div k = (y + (k - 1)) div k + (if y mod k = 0 then 1 else 0)"
proof -
  have k0: "k \<noteq> 0" using assms by simp
  have a: "(y + k) div k = y div k + 1" using k0 by (simp add: div_add_self2)
  have r: "0 \<le> y mod k" "y mod k < k" using assms by simp_all
  have "(y mod k + (k - 1) + (y div k) * k) div k = y div k + (y mod k + (k - 1)) div k"
    using k0 by (rule div_mult_self1)
  moreover have "y mod k + (k - 1) + (y div k) * k = y + (k - 1)"
    using div_mult_mod_eq [of y k] by (simp only: algebra_simps)
  ultimately have b: "(y + (k - 1)) div k = y div k + (y mod k + (k - 1)) div k"
    by simp
  show ?thesis
  proof (cases "y mod k = 0")
    case True
    have "(k - 1) div k = 0" using assms by (simp add: div_pos_pos_trivial)
    with a b True show ?thesis by simp
  next
    case False
    with r have r1: "1 \<le> y mod k" by simp
    have "(y mod k + (k - 1)) div k = (y mod k - 1 + 1 * k) div k"
      by (simp add: algebra_simps)
    also have "\<dots> = 1 + (y mod k - 1) div k"
      using k0 by (rule div_mult_self1)
    also have "\<dots> = 1"
      using r r1 by (simp add: div_pos_pos_trivial)
    finally show ?thesis using a b False by simp
  qed
qed

lemma daysBeforeYear_Suc:
  "daysBeforeYear (y + 1) = daysBeforeYear y + 365 + (if isLeap y then 1 else 0)"
proof -
  define q4 where "q4 = (y + 3) div 4"
  define q100 where "q100 = (y + 99) div 100"
  define q400 where "q400 = (y + 399) div 400"
  have 4: "(y + 4) div 4 = q4 + (if y mod 4 = 0 then 1 else 0)"
    using ceil_div_step [of 4 y] by (simp add: q4_def)
  have 100: "(y + 100) div 100 = q100 + (if y mod 100 = 0 then 1 else 0)"
    using ceil_div_step [of 100 y] by (simp add: q100_def)
  have 400: "(y + 400) div 400 = q400 + (if y mod 400 = 0 then 1 else 0)"
    using ceil_div_step [of 400 y] by (simp add: q400_def)
  have d1: "y mod 400 = 0 \<Longrightarrow> y mod 100 = 0"
    using mod_mod_cancel [of 100 400 y] by simp
  have d2: "y mod 100 = 0 \<Longrightarrow> y mod 4 = 0"
    using mod_mod_cancel [of 4 100 y] by simp
  have old: "daysBeforeYear y = 365 * y + q4 - q100 + q400"
    by (simp add: daysBeforeYear_def q4_def q100_def q400_def)
  have "y + 1 + 3 = y + 4" "y + 1 + 99 = y + 100" "y + 1 + 399 = y + 400" by simp_all
  then have new: "daysBeforeYear (y + 1) =
      365 * (y + 1) + (y + 4) div 4 - (y + 100) div 100 + (y + 400) div 400"
    by (simp only: daysBeforeYear_def)
  consider (a) "y mod 400 = 0" | (b) "y mod 400 \<noteq> 0" "y mod 100 = 0"
    | (c) "y mod 100 \<noteq> 0" "y mod 4 = 0" | (d) "y mod 4 \<noteq> 0"
    by blast
  then show ?thesis
  proof cases
    case a
    have "y mod 100 = 0" by (rule d1 [OF a])
    moreover from this have "y mod 4 = 0" by (rule d2)
    ultimately show ?thesis using a unfolding new old 4 100 400 isLeap_def by simp
  next
    case b
    have "y mod 4 = 0" by (rule d2 [OF b(2)])
    with b show ?thesis unfolding new old 4 100 400 isLeap_def by simp
  next
    case c
    have "y mod 400 \<noteq> 0" using c(1) d1 by (rule contrapos_nn)
    with c show ?thesis unfolding new old 4 100 400 isLeap_def by simp
  next
    case d
    have n100: "y mod 100 \<noteq> 0" using d d2 by (rule contrapos_nn)
    have "y mod 400 \<noteq> 0" using n100 d1 by (rule contrapos_nn)
    with d n100 show ?thesis unfolding new old 4 100 400 isLeap_def by simp
  qed
qed


lemma month_cases:
  "1 \<le> (m::int) \<Longrightarrow> m \<le> 12 \<Longrightarrow> m \<in> {1, 2, 3, 4, 5, 6, 7, 8, 9, 10, 11, 12}"
  by simp presburger

lemma daysBefore_Suc:
  assumes "1 \<le> m" "m < 12"
  shows "daysBefore (m + 1) = daysBefore m + (if m = 2 then 28 else daysIn m y)"
proof -
  from assms have "m \<in> {1, 2, 3, 4, 5, 6, 7, 8, 9, 10, 11, 12}" by (intro month_cases) auto
  with assms(2) show ?thesis by (auto simp: daysBefore_def daysIn_def)
qed

lemma daysIn_pos: "1 \<le> daysIn m y"
  by (simp add: daysIn_def)

lemma AddDate_next_day:
  assumes "validTime t"
  shows "dayNumber (AddDate t) = dayNumber t + 1 \<and> validTime (AddDate t)"
proof -
  from assms have m: "1 \<le> month t" "month t \<le> 12"
    and d: "1 \<le> day t" "day t \<le> daysIn (month t) (year t)"
    and n: "0 \<le> nsecOfDay t" "nsecOfDay t < 86400 * 1000000000"
    by (simp_all add: validTime_def)
  consider (same) "day t + 1 \<le> daysIn (month t) (year t)"
    | (month) "day t = daysIn (month t) (year t)" "month t < 12"
    | (year) "day t = daysIn (month t) (year t)" "month t = 12"
    using m d by linarith
  then show ?thesis
  proof cases
    case same
    with m d n show ?thesis by (simp add: AddDate_def dayNumber_def validTime_def)
  next
    case month
    have v: "validTime (AddDate t)"
      using month m n daysIn_pos [of "month t + 1" "year t"]
      by (simp add: AddDate_def validTime_def)
    have "dayNumber (AddDate t) = dayNumber t + 1"
      using month m daysBefore_Suc [of "month t" "year t"]
      by (auto simp: AddDate_def dayNumber_def daysIn_def)
    with v show ?thesis by simp
  next
    case year
    have v: "validTime (AddDate t)"
      using year n by (simp add: AddDate_def validTime_def daysIn_def)
    have "dayNumber (AddDate t) = dayNumber t + 1"
      using year by (simp add: AddDate_def dayNumber_def daysIn_def daysBefore_def daysBeforeYear_Suc)
    with v show ?thesis by simp
  qed
qed

section \<open>Parsing by the five layouts\<close>

lemma chunks_primary:
  "chunks ''2006-01-02'' =
     [([], Some stdLongYear), (''-'', Some stdZeroMonth), (''-'', Some stdZeroDay), ([], None)]"
  by (simp add: chunks_def eval_nat_numeral)

lemma chunks_f1:
  "chunks ''1/2/2006'' =
     [([], Some stdNumMonth), (''/'', Some stdDay), (''/'', Some stdLongYear), ([], None)]"
  by (simp add: chunks_def eval_nat_numeral)

lemma chunks_f2:
  "chunks ''01/02/2006'' =
     [([], Some stdZeroMonth), (''/'', Some stdZeroDay), (''/'', Some stdLongYear), ([], None)]"
  by (simp add: chunks_def eval_nat_numeral)

lemma chunks_f3:
  "chunks ''2006/01/02'' =
     [([], Some stdLongYear), (''/'', Some stdZeroMonth), (''/'', Some stdZeroDay), ([], None)]"
  by (simp add: chunks_def eval_nat_numeral)

lemma chunks_f4:
  "chunks ''Jan 2, 2006'' =
     [([], Some stdMonth), ('' '', Some stdDay), ('', '', Some stdLongYear), ([], None)]"
  by (simp add: chunks_def eval_nat_numeral)

lemmas chunks_eval = chunks_primary chunks_f1 chunks_f2 chunks_f3 chunks_f4

lemmas parse_eval = Parse_def chunks_eval parseStd_def getnum_def isDigit_def digitVal_def
  daysIn_def isLeap_def shortMonthNames_def toLowerByte_def isUpper_def cutspace_def

lemmas trim_eval = TrimSpace_def trimFront.simps runeWidth_def spaceRunes_def

lemma lookup_bounds:
  "lookup tab i val = Some (j, r) \<Longrightarrow> i \<le> j \<and> j < i + int (length tab)"
  by (induction tab i val rule: lookup.induct) (auto split: if_splits)

lemma parseStd_monthOK:
  assumes "parseStd e v st = Some (st', r)" and "monthOK st"
  shows "monthOK st'"
proof (cases e)
  case stdMonth
  with assms obtain i where "lookup shortMonthNames 0 v = Some (i, r)" "st' = st\<lparr>pMonth := i + 1\<rparr>"
    by (auto simp: parseStd_def split: option.splits)
  with lookup_bounds [of shortMonthNames 0 v i r] show ?thesis
    by (simp add: monthOK_def shortMonthNames_def)
qed (use assms in \<open>auto simp: parseStd_def monthOK_def split: option.splits if_splits\<close>)

lemma parseChunks_monthOK:
  "parseChunks cs v st = Some st' \<Longrightarrow> monthOK st \<Longrightarrow> monthOK st'"
proof (induction cs v st rule: parseChunks.induct)
  case (1 val st)
  then show ?case by (simp split: if_splits)
next
  case (2 prefix s cs val st)
  from "2.prems"(1) obtain val' where sk: "skip val prefix = Some val'"
    by (auto split: option.splits)
  show ?case
  proof (cases s)
    case None
    with "2.prems" sk show ?thesis by (simp split: if_splits)
  next
    case (Some e)
    with "2.prems"(1) sk obtain st1 val'' where
      p: "parseStd e val' st = Some (st1, val'')" and rest: "parseChunks cs val'' st1 = Some st'"
      by (auto split: option.splits)
    from parseStd_monthOK [OF p "2.prems"(2)] have "monthOK st1" .
    with "2.IH" [OF sk Some p] rest show ?thesis by simp
  qed
qed

lemma Parse_valid:
  assumes "Parse layout v = Inr D"
  shows "validTime D \<and> nsecOfDay D = 0 \<and> zoneOffset D = 0"
proof -
  let ?st0 = "\<lparr>pYear = 0, pMonth = - 1, pDay = - 1\<rparr>"
  from assms obtain st where st: "parseChunks (chunks layout) v ?st0 = Some st"
    by (auto simp: Parse_def split: option.splits)
  have "monthOK ?st0" by (simp add: monthOK_def)
  from parseChunks_monthOK [OF st this] have "monthOK st" .
  with assms st show ?thesis
    by (auto simp: Parse_def Let_def validTime_def monthOK_def split: if_splits)
qed

lemma digit_not_sep: "isDigit c \<Longrightarrow> c \<noteq> CHR ''/'' \<and> c \<noteq> CHR ''-'' \<and> c \<noteq> CHR '' ''"
  by (auto simp: isDigit_def)

lemma len4_shape: "4 \<le> length s \<Longrightarrow> \<exists>c0 c1 c2 c3 r. s = c0 # c1 # c2 # c3 # r"
  by (cases s; cases "tl s"; cases "tl (tl s)"; cases "tl (tl (tl s))") auto

lemma year_first_shape:
  assumes "parseChunks (([], Some stdLongYear) # (sep # ps, e) # cs) s st = Some st'"
    and "sep \<noteq> CHR '' ''"
  shows "\<exists>c0 c1 c2 c3 r. s = c0 # c1 # c2 # c3 # sep # r
           \<and> isDigit c0 \<and> isDigit c1 \<and> isDigit c2 \<and> isDigit c3"
proof -
  from assms(1) have len: "4 \<le> length s" and dig: "list_all isDigit (take 4 s)"
    by (auto simp: parseStd_def split: option.splits if_splits)
  from len4_shape [OF len] obtain c0 c1 c2 c3 r where s: "s = c0 # c1 # c2 # c3 # r" by blast
  with dig have d: "isDigit c0" "isDigit c1" "isDigit c2" "isDigit c3" by simp_all
  from assms s d have "r \<noteq> [] \<and> hd r = sep"
    by (auto simp: parseStd_def split: option.splits if_splits)
  then obtain r' where "r = sep # r'" by (cases r) auto
  with s d show ?thesis by simp
qed

lemma getnum_fixed: "getnum s True = Some x \<Longrightarrow> getnum s False = Some x"
  by (auto simp: getnum_def split: list.splits if_splits)

lemma getnum_shape:
  assumes "getnum s fixed = Some (n, r)"
  shows "\<exists>c0. isDigit c0 \<and> (s = c0 # r \<and> (r = [] \<or> \<not> isDigit (hd r)) \<or> (\<exists>c1. isDigit c1 \<and> s = c0 # c1 # r))"
  using assms by (auto simp: getnum_def split: list.splits if_splits)

lemma num_first_shape:
  assumes "parseChunks (([], Some e) # (sep # ps, e') # cs) s st = Some st'"
    and "e = stdNumMonth \<or> e = stdZeroMonth" and "sep \<noteq> CHR '' ''"
  shows "\<exists>c0. isDigit c0 \<and> ((\<exists>r. s = c0 # sep # r) \<or> (\<exists>c1 r. isDigit c1 \<and> s = c0 # c1 # sep # r))"
proof -
  from assms obtain n r st1 where g: "getnum s (e = stdZeroMonth) = Some (n, r)"
    and sk: "skip r (sep # ps) \<noteq> None"
    by (auto simp: parseStd_def split: option.splits if_splits)
  from sk assms(3) have "r \<noteq> [] \<and> hd r = sep" by (auto split: if_splits)
  then obtain r' where r: "r = sep # r'" by (cases r) auto
  from getnum_shape [OF g] r show ?thesis by auto
qed

lemma lookup_Some:
  "lookup tab i val = Some (j, r) \<Longrightarrow>
   \<exists>v\<in>set tab. length v \<le> length val \<and> map toLowerByte (take (length v) val) = v"
  by (induction tab i val rule: lookup.induct) (auto split: if_splits)

lemma toLowerByte_digit: "isDigit (toLowerByte c) = isDigit c"
  by (cases c) (auto simp: toLowerByte_def isDigit_def isUpper_def)

lemma month_first_shape:
  assumes "parseChunks (([], Some stdMonth) # cs) s st = Some st'"
  shows "s \<noteq> [] \<and> \<not> isDigit (hd s)"
proof -
  from assms obtain i r where "lookup shortMonthNames 0 s = Some (i, r)"
    by (auto simp: parseStd_def split: option.splits)
  from lookup_Some [OF this] obtain v where v: "v \<in> set shortMonthNames"
    "length v \<le> length s" "map toLowerByte (take (length v) s) = v" by blast
  from v(1) have nv: "v \<noteq> [] \<and> \<not> isDigit (hd v)"
    by (auto simp: shortMonthNames_def isDigit_def)
  with v(2) have ne: "s \<noteq> []" by auto
  then obtain c cs' where s: "s = c # cs'" by (cases s) auto
  from nv obtain a b where "v = a # b" by (cases v) auto
  with v(3) s have "toLowerByte c = hd v" by auto
  with nv have "\<not> isDigit c" by (metis toLowerByte_digit)
  with s show ?thesis by simp
qed

lemma parseStd_fixed_month:
  "parseStd stdZeroMonth v st = Some x \<Longrightarrow> parseStd stdNumMonth v st = Some x"
  by (auto simp: parseStd_def split: option.splits if_splits dest!: getnum_fixed)

lemma parseStd_fixed_day:
  "parseStd stdZeroDay v st = Some x \<Longrightarrow> parseStd stdDay v st = Some x"
  by (auto simp: parseStd_def split: option.splits if_splits dest!: getnum_fixed)

lemma parseChunks_f2_f1:
  assumes "parseChunks (chunks ''01/02/2006'') s st = Some st'"
  shows "parseChunks (chunks ''1/2/2006'') s st = Some st'"
proof -
  from assms obtain st1 v1 where a: "parseStd stdZeroMonth s st = Some (st1, v1)"
    and r1: "parseChunks [(''/'', Some stdZeroDay), (''/'', Some stdLongYear), ([], None)] v1 st1 = Some st'"
    by (auto simp: chunks_f2 split: option.splits)
  from r1 obtain v2 where s2: "skip v1 ''/'' = Some v2" by (auto split: option.splits)
  with r1 obtain st2 v3 where b: "parseStd stdZeroDay v2 st1 = Some (st2, v3)"
    and r2: "parseChunks [(''/'', Some stdLongYear), ([], None)] v3 st2 = Some st'"
    by (auto split: option.splits)
  from parseStd_fixed_month [OF a] parseStd_fixed_day [OF b] s2 r2
  show ?thesis by (simp add: chunks_f1)
qed

lemma Parse_f2_f1: "Parse ''01/02/2006'' s = Inr D \<Longrightarrow> Parse ''1/2/2006'' s = Inr D"
  by (auto simp: Parse_def split: option.splits dest!: parseChunks_f2_f1)

lemma Parse_chunks:
  "Parse L s = Inr D \<Longrightarrow> \<exists>st. parseChunks (chunks L) s \<lparr>pYear = 0, pMonth = - 1, pDay = - 1\<rparr> = Some st"
  by (auto simp: Parse_def split: option.splits)

lemma shape_year:
  assumes "Parse L s = Inr D" and "L = ''2006-01-02'' \<and> sep = CHR ''-'' \<or> L = ''2006/01/02'' \<and> sep = CHR ''/''"
  shows "\<exists>c0 c1 c2 c3 r. s = c0 # c1 # c2 # c3 # sep # r
           \<and> isDigit c0 \<and> isDigit c1 \<and> isDigit c2 \<and> isDigit c3"
proof -
  from Parse_chunks [OF assms(1)] obtain st where
    "parseChunks (chunks L) s \<lparr>pYear = 0, pMonth = - 1, pDay = - 1\<rparr> = Some st" by blast
  with assms(2) show ?thesis
    by (elim disjE conjE) (simp_all only: chunks_primary chunks_f3, (rule year_first_shape, assumption, simp)+)
qed

lemma shape_num:
  assumes "Parse L s = Inr D" and "L = ''1/2/2006'' \<or> L = ''01/02/2006''"
  shows "\<exists>c0. isDigit c0 \<and> ((\<exists>r. s = c0 # CHR ''/'' # r) \<or> (\<exists>c1 r. isDigit c1 \<and> s = c0 # c1 # CHR ''/'' # r))"
proof -
  from Parse_chunks [OF assms(1)] obtain st where
    "parseChunks (chunks L) s \<lparr>pYear = 0, pMonth = - 1, pDay = - 1\<rparr> = Some st" by blast
  with assms(2) show ?thesis
    by (elim disjE) (simp_all only: chunks_f1 chunks_f2, (rule num_first_shape, assumption, simp, simp)+)
qed

lemma shape_month:
  assumes "Parse ''Jan 2, 2006'' s = Inr D"
  shows "s \<noteq> [] \<and> \<not> isDigit (hd s)"
proof -
  from Parse_chunks [OF assms(1)] obtain st where
    "parseChunks (chunks ''Jan 2, 2006'') s \<lparr>pYear = 0, pMonth = - 1, pDay = - 1\<rparr> = Some st" by blast
  then show ?thesis unfolding chunks_f4 by (rule month_first_shape)
qed

lemma incompat_year_num:
  assumes "Parse Ly s = Inr D1" and "Ly = ''2006-01-02'' \<or> Ly = ''2006/01/02''"
    and "Parse Ln s = Inr D2" and "Ln = ''1/2/2006'' \<or> Ln = ''01/02/2006''"
  shows False
proof -
  from assms(2) obtain sep where
    "Ly = ''2006-01-02'' \<and> sep = CHR ''-'' \<or> Ly = ''2006/01/02'' \<and> sep = CHR ''/''" by blast
  from shape_year [OF assms(1) this] obtain c0 c1 c2 c3 r where
    s: "s = c0 # c1 # c2 # c3 # sep # r" and d: "isDigit c1" "isDigit c2" by blast
  from shape_num [OF assms(3,4)] s have "c1 = CHR ''/'' \<or> c2 = CHR ''/''" by auto
  with d digit_not_sep show False by blast
qed

lemma incompat_year_year:
  assumes "Parse ''2006-01-02'' s = Inr D1" and "Parse ''2006/01/02'' s = Inr D2"
  shows False
proof -
  from shape_year [OF assms(1), of "CHR ''-''"] obtain c0 c1 c2 c3 r where
    s: "s = c0 # c1 # c2 # c3 # CHR ''-'' # r" by auto
  from shape_year [OF assms(2), of "CHR ''/''"] s show False by auto
qed

lemma incompat_month_digit:
  assumes "Parse ''Jan 2, 2006'' s = Inr D1" and "Parse L s = Inr D2"
    and "L = ''2006-01-02'' \<or> L = ''1/2/2006'' \<or> L = ''01/02/2006'' \<or> L = ''2006/01/02''"
  shows False
proof -
  from shape_month [OF assms(1)] have nd: "s \<noteq> []" "\<not> isDigit (hd s)" by simp_all
  from assms(3) consider (y) "L = ''2006-01-02'' \<or> L = ''2006/01/02''"
    | (n) "L = ''1/2/2006'' \<or> L = ''01/02/2006''" by blast
  then show False
  proof cases
    case y
    then obtain sep where
      "L = ''2006-01-02'' \<and> sep = CHR ''-'' \<or> L = ''2006/01/02'' \<and> sep = CHR ''/''" by blast
    from shape_year [OF assms(2) this] nd show False by auto
  next
    case n
    from shape_num [OF assms(2) n] nd show False by auto
  qed
qed

lemma not_Inr_Inl: "(\<And>D. Parse L s \<noteq> Inr D) \<Longrightarrow> \<exists>e. Parse L s = Inl e"
  by (cases "Parse L s") auto

lemma first_parse:
  assumes "L \<in> set allLayouts" and "Parse L s = Inr D"
  shows "(case Parse ''2006-01-02'' s of
            Inr parsedDate \<Rightarrow> Format (AddDate parsedDate)
          | Inl err \<Rightarrow> (case tryFormats formats s of Some d \<Rightarrow> d | None \<Rightarrow> fallbackFilterDate))
         = Format (AddDate D)"
proof -
  have "L = ''2006-01-02'' \<or> L = ''1/2/2006'' \<or> L = ''01/02/2006''
      \<or> L = ''2006/01/02'' \<or> L = ''Jan 2, 2006''"
    using assms(1)
    by (simp only: allLayouts_def formats_def list.set insert_iff empty_iff simp_thms)
  then consider (p) "L = ''2006-01-02''" | (f1) "L = ''1/2/2006''"
    | (f2) "L = ''01/02/2006''" | (f3) "L = ''2006/01/02''" | (f4) "L = ''Jan 2, 2006''"
    by (elim disjE) assumption+
  then show ?thesis
  proof cases
    case p
    with assms(2) show ?thesis by simp
  next
    case f1
    have "\<exists>e. Parse ''2006-01-02'' s = Inl e"
      using incompat_year_num [OF _ _ assms(2)] f1 by (intro not_Inr_Inl) blast
    with assms(2) f1 show ?thesis by (auto simp: formats_def)
  next
    case f2
    have "\<exists>e. Parse ''2006-01-02'' s = Inl e"
      using incompat_year_num [OF _ _ assms(2)] f2 by (intro not_Inr_Inl) blast
    moreover have "Parse ''1/2/2006'' s = Inr D" using assms(2) f2 Parse_f2_f1 by blast
    ultimately show ?thesis by (auto simp: formats_def)
  next
    case f3
    have "\<exists>e. Parse ''2006-01-02'' s = Inl e"
      using incompat_year_year [OF _ assms(2) [unfolded f3]] by (intro not_Inr_Inl) blast
    moreover have "\<exists>e. Parse ''1/2/2006'' s = Inl e"
      using incompat_year_num [OF assms(2)] f3 by (intro not_Inr_Inl) blast
    moreover have "\<exists>e. Parse ''01/02/2006'' s = Inl e"
      using incompat_year_num [OF assms(2)] f3 by (intro not_Inr_Inl) blast
    ultimately show ?thesis using assms(2) f3 by (auto simp: formats_def)
  next
    case f4
    have "\<exists>e. Parse ''2006-01-02'' s = Inl e"
      using incompat_month_digit [OF assms(2) [unfolded f4]] by (intro not_Inr_Inl) blast
    moreover have "\<exists>e. Parse ''1/2/2006'' s = Inl e"
      using incompat_month_digit [OF assms(2) [unfolded f4]] by (intro not_Inr_Inl) blast
    moreover have "\<exists>e. Parse ''01/02/2006'' s = Inl e"
      using incompat_month_digit [OF assms(2) [unfolded f4]] by (intro not_Inr_Inl) blast
    moreover have "\<exists>e. Parse ''2006/01/02'' s = Inl e"
      using incompat_month_digit [OF assms(2) [unfolded f4]] by (intro not_Inr_Inl) blast
    ultimately show ?thesis using assms(2) f4 by (auto simp: formats_def)
  qed
qed

lemma dynamicFilterDate_cell:
  assumes "rows \<noteq> []" and "last rows \<noteq> []" and "hd (last rows) \<noteq> CellNil"
  shows "dynamicFilterDate rows =
    (case Parse ''2006-01-02'' (TrimSpace (Sprintf_v (hd (last rows)))) of
       Inr parsedDate \<Rightarrow> Format (AddDate parsedDate)
     | Inl err \<Rightarrow>
         (case tryFormats formats (TrimSpace (Sprintf_v (hd (last rows)))) of
            Some d \<Rightarrow> d | None \<Rightarrow> fallbackFilterDate))"
proof -
  have a: "rows ! (length rows - 1) = last rows" using assms(1) by (simp add: last_conv_nth)
  have b: "last rows ! 0 = hd (last rows)" using assms(2) by (simp add: hd_conv_nth)
  show ?thesis unfolding dynamicFilterDate_def Let_def a b using assms by simp
qed

lemma dynamicFilterDate_no_cell:
  assumes "rows = [] \<or> last rows = [] \<or> hd (last rows) = CellNil"
  shows "dynamicFilterDate rows = fallbackFilterDate"
proof (cases "rows = []")
  case True
  then show ?thesis by (simp add: dynamicFilterDate_def)
next
  case False
  then have a: "rows ! (length rows - 1) = last rows" by (simp add: last_conv_nth)
  show ?thesis
  proof (cases "last rows = []")
    case True
    then show ?thesis unfolding dynamicFilterDate_def Let_def a by simp
  next
    case False
    then have b: "last rows ! 0 = hd (last rows)" by (simp add: hd_conv_nth)
    from assms \<open>rows \<noteq> []\<close> False have "hd (last rows) = CellNil" by simp
    then show ?thesis unfolding dynamicFilterDate_def Let_def a b by simp
  qed
qed

lemma trim_nil: "TrimSpace (Sprintf_v CellNil) = ''<nil>''"
  by (simp add: trim_eval)

lemma trim_empty: "TrimSpace (Sprintf_v (CellString [])) = []"
  by (simp add: trim_eval)

lemma nil_unparseable:
  "Parse ''2006-01-02'' ''<nil>'' = Inl ParseError" "Parse ''1/2/2006'' ''<nil>'' = Inl ParseError"
  "Parse ''01/02/2006'' ''<nil>'' = Inl ParseError" "Parse ''2006/01/02'' ''<nil>'' = Inl ParseError"
  "Parse ''Jan 2, 2006'' ''<nil>'' = Inl ParseError"
  by (simp_all add: parse_eval)

lemma empty_unparseable:
  "Parse ''2006-01-02'' [] = Inl ParseError" "Parse ''1/2/2006'' [] = Inl ParseError"
  "Parse ''01/02/2006'' [] = Inl ParseError" "Parse ''2006/01/02'' [] = Inl ParseError"
  "Parse ''Jan 2, 2006'' [] = Inl ParseError"
  by (simp_all add: parse_eval)

lemma tryFormats_none:
  "\<forall>L\<in>set fs. isl (Parse L s) \<Longrightarrow> tryFormats fs s = None"
  by (induction fs) (auto simp: isl_def)

section \<open>The watermark\<close>

text \<open>
  C3. When the sheet has rows, the last row has a first cell and that cell, printed and
  trimmed, parses under the primary layout or any of the four alternatives as the date
  \<open>D\<close>, the filter date is the day after \<open>D\<close> in the form YYYY-MM-DD: \<open>D\<close> is a date
  of the calendar and \<open>AddDate\<close> gives the date whose day number is one more. A last
  row \<open>["7/20/2025", 3]\<close> gives 2025-07-21.
\<close>

theorem watermark_next_day:
  assumes "rows \<noteq> []" and "last rows \<noteq> []"
    and "layout \<in> set allLayouts"
    and "Parse layout (TrimSpace (Sprintf_v (hd (last rows)))) = Inr D"
  shows "dynamicFilterDate rows = Format (AddDate D)
         \<and> validTime D \<and> validTime (AddDate D) \<and> dayNumber (AddDate D) = dayNumber D + 1"
proof -
  have cell: "hd (last rows) \<noteq> CellNil"
  proof
    assume n: "hd (last rows) = CellNil"
    have "layout = ''2006-01-02'' \<or> layout = ''1/2/2006'' \<or> layout = ''01/02/2006''
      \<or> layout = ''2006/01/02'' \<or> layout = ''Jan 2, 2006''"
      using assms(3)
      by (simp only: allLayouts_def formats_def list.set insert_iff empty_iff simp_thms)
    with assms(4) show False
      unfolding n trim_nil using nil_unparseable by (elim disjE) simp_all
  qed
  from dynamicFilterDate_cell [OF assms(1,2) cell] first_parse [OF assms(3,4)]
  have "dynamicFilterDate rows = Format (AddDate D)" by simp
  moreover from Parse_valid [OF assms(4)] have "validTime D" by simp
  moreover from AddDate_next_day [OF this]
  have "dayNumber (AddDate D) = dayNumber D + 1" "validTime (AddDate D)" by simp_all
  ultimately show ?thesis by simp
qed

theorem watermark_next_day_witness:
  "Parse ''1/2/2006'' (TrimSpace (Sprintf_v (hd (last [[CellString ''7/20/2025'', CellInt 3]]))))
     = Inr \<lparr>year = 2025, month = 7, day = 20, nsecOfDay = 0, zoneOffset = 0\<rparr>
   \<and> dynamicFilterDate [[CellString ''7/20/2025'', CellInt 3]] = ''2025-07-21''"
proof -
  let ?rows = "[[CellString ''7/20/2025'', CellInt 3]]"
  let ?D = "\<lparr>year = 2025, month = 7, day = 20, nsecOfDay = 0, zoneOffset = 0\<rparr>"
  have a: "?rows \<noteq> []" and b: "last ?rows \<noteq> []" by simp_all
  have c: "''1/2/2006'' \<in> set allLayouts" by (simp add: allLayouts_def formats_def)
  have d: "Parse ''1/2/2006'' (TrimSpace (Sprintf_v (hd (last ?rows)))) = Inr ?D"
    by (simp add: trim_eval parse_eval)
  have e: "Format (AddDate ?D) = ''2025-07-21''"
    by (simp add: AddDate_def daysIn_def format_eval)
  from watermark_next_day [OF a b c d] d e show ?thesis by simp
qed

text \<open>
  C4. When the sheet has no rows, or the last row has no first cell (no cells, a nil
  cell, an empty string), or the cell parses under none of the five layouts, the filter
  date is the fallback 2025-05-21.
\<close>

theorem watermark_fallback:
  assumes "rows = [] \<or> last rows = [] \<or> hd (last rows) = CellNil
           \<or> hd (last rows) = CellString []
           \<or> (\<forall>layout \<in> set allLayouts.
                 isl (Parse layout (TrimSpace (Sprintf_v (hd (last rows))))))"
  shows "dynamicFilterDate rows = fallbackFilterDate"
proof (cases "rows = [] \<or> last rows = [] \<or> hd (last rows) = CellNil")
  case True
  then show ?thesis by (rule dynamicFilterDate_no_cell)
next
  case False
  then have r: "rows \<noteq> []" "last rows \<noteq> []" "hd (last rows) \<noteq> CellNil" by simp_all
  let ?ds = "TrimSpace (Sprintf_v (hd (last rows)))"
  have all: "\<forall>layout \<in> set allLayouts. isl (Parse layout ?ds)"
  proof (cases "hd (last rows) = CellString []")
    case True
    show ?thesis unfolding True trim_empty
      by (simp add: allLayouts_def formats_def empty_unparseable)
  next
    case False
    with assms r show ?thesis by blast
  qed
  then have p: "isl (Parse ''2006-01-02'' ?ds)" by (simp add: allLayouts_def)
  from all have "tryFormats formats ?ds = None"
    by (intro tryFormats_none) (simp add: allLayouts_def)
  with p show ?thesis
    unfolding dynamicFilterDate_cell [OF r] by (auto simp: isl_def)
qed

theorem watermark_fallback_witness:
  "dynamicFilterDate [] = ''2025-05-21''
   \<and> dynamicFilterDate [[CellString ''2025-07-20'', CellInt 5], []] = ''2025-05-21''
   \<and> dynamicFilterDate [[CellNil, CellInt 5]] = ''2025-05-21''
   \<and> dynamicFilterDate [[CellString [], CellInt 5]] = ''2025-05-21''
   \<and> dynamicFilterDate [[CellString ''20 July 2025'', CellInt 5]] = ''2025-05-21''"
proof -
  have e: "\<forall>layout \<in> set allLayouts.
      isl (Parse layout (TrimSpace (Sprintf_v (hd (last [[CellString ''20 July 2025'', CellInt 5]])))))"
    by (simp add: allLayouts_def formats_def trim_eval parse_eval)
  show ?thesis
    using watermark_fallback [of "[]"]
      watermark_fallback [of "[[CellString ''2025-07-20'', CellInt 5], []]"]
      watermark_fallback [of "[[CellNil, CellInt 5]]"]
      watermark_fallback [of "[[CellString [], CellInt 5]]"]
      watermark_fallback [of "[[CellString ''20 July 2025'', CellInt 5]]"] e
    by (simp add: fallbackFilterDate_def)
qed

lemma dynamicFilterDate_last:
  "rows \<noteq> [] \<Longrightarrow> dynamicFilterDate rows = dynamicFilterDate [last rows]"
  by (simp add: dynamicFilterDate_def last_conv_nth)

lemma watermark_of_2025_07_20:
  "dynamicFilterDate [[CellString ''2025-07-20'', CellInt 5]] = ''2025-07-21''"
  by (simp add: dynamicFilterDate_def trim_eval parse_eval AddDate_def format_eval)

text \<open>
  C8. When a run appends a batch whose last row is \<open>["2025-07-20", 5]\<close> (the date as
  \<open>appendToSheet\<close> formats it) and the service accepts it, that row is the last of the
  sheet and the filter date computed from the sheet is 2025-07-21.
\<close>

theorem round_trip:
  assumes "\<not> failing srv" and "Format (Date email) = ''2025-07-20''" and "ZillowSaves email = 5"
  shows "fst (appendToSheet srv (emails @ [email])) = None
         \<and> last (sheet (snd (appendToSheet srv (emails @ [email]))))
             = [CellString ''2025-07-20'', CellInt 5]
         \<and> dynamicFilterDate (sheet (snd (appendToSheet srv (emails @ [email])))) = ''2025-07-21''"
proof -
  let ?row = "\<lambda>email. [CellString (Format (Date email)), CellInt (ZillowSaves email)]"
  have ap: "appendToSheet srv (emails @ [email]) =
      (None, srv\<lparr>sheet := sheet srv @ map ?row emails @ [[CellString ''2025-07-20'', CellInt 5]],
                  appendCalls := appendCalls srv @ [map ?row emails @ [[CellString ''2025-07-20'', CellInt 5]]]\<rparr>)"
    using assms by (simp add: appendToSheet_def Values_Append_def Let_def)
  have "dynamicFilterDate (sheet srv @ map ?row emails @ [[CellString ''2025-07-20'', CellInt 5]])
      = dynamicFilterDate [[CellString ''2025-07-20'', CellInt 5]]"
    by (subst dynamicFilterDate_last) simp_all
  with ap watermark_of_2025_07_20 show ?thesis by simp
qed

theorem round_trip_witness:
  "Format (Date email5) = ''2025-07-20''
   \<and> appendToSheet srv0 [email0, email5\<lparr>ZillowSaves := 5\<rparr>] =
       (None, \<lparr>sheet = [[CellString ''2025-07-21'', CellInt 0], [CellString ''2025-07-20'', CellInt 5]],
               appendCalls = [[[CellString ''2025-07-21'', CellInt 0], [CellString ''2025-07-20'', CellInt 5]]],
               failing = False\<rparr>)
   \<and> dynamicFilterDate [[CellString ''2025-07-21'', CellInt 0], [CellString ''2025-07-20'', CellInt 5]]
       = ''2025-07-21''"
proof -
  have a: "\<not> failing srv0" by (simp add: srv0_def)
  have b: "Format (Date (email5\<lparr>ZillowSaves := 5\<rparr>)) = ''2025-07-20''"
    by (simp add: email5_def format_eval)
  have c: "ZillowSaves (email5\<lparr>ZillowSaves := 5\<rparr>) = 5" by simp
  have d: "appendToSheet srv0 [email0, email5\<lparr>ZillowSaves := 5\<rparr>] =
       (None, \<lparr>sheet = [[CellString ''2025-07-21'', CellInt 0], [CellString ''2025-07-20'', CellInt 5]],
               appendCalls = [[[CellString ''2025-07-21'', CellInt 0], [CellString ''2025-07-20'', CellInt 5]]],
               failing = False\<rparr>)"
    by (simp add: appendToSheet_def Values_Append_def Let_def srv0_def email0_def email5_def format_eval)
  from round_trip [OF a b c, of "[email0]"] b d show ?thesis by simp
qed

section \<open>Sorting and the order of the rows\<close>























section \<open>Appending to the sheet\<close>

text \<open>
  C10. For an empty batch \<open>appendToSheet\<close> returns nil without calling the service: the
  service is as it was, no batch has been handed over and the sheet has the same rows.
\<close>

theorem appendToSheet_empty:
  "appendToSheet srv [] = (None, srv)
   \<and> appendCalls (snd (appendToSheet srv [])) = appendCalls srv
   \<and> sheet (snd (appendToSheet srv [])) = sheet srv"
  by (simp add: appendToSheet_def)

end
